theory Spec2Isabelle
  imports Complex_Main
begin

section \<open>The machine object and the configurations\<close>

text \<open>
  The class \<open>NonDeterministicTM\<close> of \<open>traceTM_newdrop.py\<close>. States and symbols are Python
  strings as the loader reads them from the definition file; a \<open>char\<close> of the model stands
  for one character of a Python string. The rule table is the dictionary
  \<open>(current_state, read_symbol) -> [(next_state, write_symbol, direction)]\<close>.
  The fields \<open>depth_limit\<close> and \<open>transition_limit\<close> are the only ones \<open>execute\<close> assigns.
\<close>

type_synonym transition = "string \<times> string \<times> string"

type_synonym config = "string \<times> string \<times> string"

record machine =
  rules :: "string \<times> string \<Rightarrow> transition list option"
  all_states :: "string set"
  input_symbols :: "string set"
  tape_symbols :: "string set"
  start :: string
  accept :: string
  reject :: string
  depth_limit :: int
  transition_limit :: int
  name :: string

datatype error = ZeroDivisionError | IndexError

text \<open>
  What \<open>print_accept_path\<close> prints: one line \<open>(level, config)\<close> per configuration, the
  number of configurations and the quotient \<open>num_configs / depth\<close> (a Python float; the
  model keeps the exact quotient).
\<close>

record report =
  level_lines :: "(int \<times> config) list"
  num_configs :: int
  average :: rat

text \<open>
  What a call of \<open>execute\<close> prints before it returns, one constructor per \<open>return\<close>:
  \<open>Accepted steps_count depth report\<close> (lines 57-60),
  \<open>TransitionLimitExceeded transition_limit\<close> (lines 70-71),
  \<open>DepthLimitExceeded steps_count depth_limit\<close> (lines 112-114),
  \<open>Rejected steps_count depth\<close> (lines 118-120) and \<open>NoPath\<close> (line 122).
\<close>

datatype outcome =
    Accepted int int report
  | Rejected int int
  | DepthLimitExceeded int int
  | TransitionLimitExceeded int
  | NoPath

text \<open>
  How the body of the \<open>for\<close> loop over the current level is left: \<open>Return\<close> when
  \<open>execute\<close> returns or raises inside it, \<open>Continue\<close> when the loop goes on. Both carry the
  value of \<open>steps_count\<close>; \<open>Continue\<close> carries \<open>next_level\<close> too.
\<close>

datatype flow =
    Return int "error + outcome"
  | Continue int "config list"

section \<open>print_accept_path\<close>

text \<open>
  The loop \<open>for level in range(depth + 1): for config in tree[level]\<close>; \<open>tree[level]\<close>
  raises \<open>IndexError\<close> past the end of the tree.
\<close>

fun census :: "config list list \<Rightarrow> int list \<Rightarrow> error + (int \<times> config) list" where
  "census tree [] = Inr []"
| "census tree (level # later) =
     (if nat level < length tree then
        (case census tree later of
           Inl e \<Rightarrow> Inl e
         | Inr ls \<Rightarrow> Inr (map (Pair level) (tree ! nat level) @ ls))
      else Inl IndexError)"

definition print_accept_path :: "config list list \<Rightarrow> int \<Rightarrow> error + report" where
  "print_accept_path tree depth =
     (case census tree [0..depth] of
        Inl e \<Rightarrow> Inl e
      | Inr ls \<Rightarrow>
          (let n = int (length ls)
           in if depth = 0 then Inl ZeroDivisionError
              else Inr \<lparr>level_lines = ls, num_configs = n,
                        average = of_int n / of_int depth\<rparr>))"

section \<open>execute\<close>

text \<open>
  Lines 83-104: one transition applied to a configuration. \<open>list(tape_left)\<close> and
  \<open>list(tape_right)\<close> are lists of one-character strings, \<open>write_symbol\<close> is whatever
  string the rule holds, and \<open>"".join\<close> concatenates. A direction other than \<open>"L"\<close> and
  \<open>"R"\<close> moves nothing.
\<close>

definition apply_transition :: "string \<Rightarrow> string \<Rightarrow> transition \<Rightarrow> config" where
  "apply_transition tape_left tape_right t =
     (case t of (next_state, write_symbol, move_dir) \<Rightarrow>
        let new_left = map (\<lambda>c. [c]) tape_left;
            new_right = map (\<lambda>c. [c]) tape_right;
            written = (if new_right \<noteq> [] then new_right[0 := write_symbol]
                       else new_right @ [write_symbol]);
            (moved_left, moved_right) =
              (if move_dir = ''L'' then
                 (if new_left \<noteq> [] then (butlast new_left, last new_left # written)
                  else (new_left, ''_'' # written))
               else if move_dir = ''R'' then
                 (let (l, r) = (if written \<noteq> [] then (new_left @ [hd written], tl written)
                                else (new_left, written))
                  in if r = [] then (l, r @ [''_'']) else (l, r))
               else (new_left, written))
        in (concat moved_left, next_state, concat moved_right))"

text \<open>Lines 55-104: the body of the loop over \<open>current_level\<close>, for one configuration.\<close>

definition for_body :: "machine \<Rightarrow> config list list \<Rightarrow> config \<Rightarrow> config list \<Rightarrow> int \<Rightarrow> flow" where
  "for_body M config_tree cfg next_level steps_count =
     (case cfg of (tape_left, current_state, tape_right) \<Rightarrow>
        if current_state = accept M then
          Return steps_count
            (case print_accept_path config_tree (int (length config_tree) - 1) of
               Inl e \<Rightarrow> Inl e
             | Inr rep \<Rightarrow> Inr (Accepted steps_count (int (length config_tree) - 1) rep))
        else if current_state = reject M then Continue steps_count next_level
        else
          let current_symbol = (if tape_right \<noteq> [] then [hd tape_right] else ''_'');
              steps_count' = steps_count + 1
          in if steps_count' > transition_limit M then
               Return steps_count' (Inr (TransitionLimitExceeded (transition_limit M)))
             else
               let transitions = (case rules M (current_state, current_symbol) of
                                    None \<Rightarrow> [] | Some ts \<Rightarrow> ts)
               in if transitions = [] then
                    Continue steps_count' (next_level @ [(tape_left, reject M, tape_right)])
                  else
                    Continue steps_count'
                      (next_level @ map (apply_transition tape_left tape_right) transitions))"

text \<open>Line 54: the loop over the configurations of \<open>current_level\<close>, in order.\<close>

fun for_level :: "machine \<Rightarrow> config list list \<Rightarrow> config list \<Rightarrow> config list \<Rightarrow> int \<Rightarrow> flow" where
  "for_level M config_tree [] next_level steps_count = Continue steps_count next_level"
| "for_level M config_tree (cfg # rest) next_level steps_count =
     (case for_body M config_tree cfg next_level steps_count of
        Return s r \<Rightarrow> Return s r
      | Continue s nl \<Rightarrow> for_level M config_tree rest nl s)"

text \<open>Lines 107-108: \<open>next_level\<close> is appended to the tree when it is not empty.\<close>

definition append_level :: "config list list \<Rightarrow> config list \<Rightarrow> config list list" where
  "append_level config_tree next_level =
     (if next_level \<noteq> [] then config_tree @ [next_level] else config_tree)"

text \<open>Line 117: \<open>any(cfg[1] != self.reject for cfg in next_level)\<close>.\<close>

definition any_alive :: "machine \<Rightarrow> config list \<Rightarrow> bool" where
  "any_alive M next_level = list_ex (\<lambda>cfg. fst (snd cfg) \<noteq> reject M) next_level"

text \<open>
  Lines 50-122: the \<open>while\<close> loop, from the tree and the counter at its head. The result is
  the last value of \<open>steps_count\<close> and what the call printed or raised.
\<close>

function main_loop :: "machine \<Rightarrow> config list list \<Rightarrow> int \<Rightarrow> int \<times> (error + outcome)" where
  "main_loop M config_tree steps_count =
     (if config_tree \<noteq> [] \<and> steps_count < transition_limit M then
        (case for_level M config_tree (last config_tree) [] steps_count of
           Return s r \<Rightarrow> (s, r)
         | Continue s next_level \<Rightarrow>
             if int (length (append_level config_tree next_level)) > depth_limit M then
               (s, Inr (DepthLimitExceeded s (depth_limit M)))
             else if \<not> any_alive M next_level then
               (s, Inr (Rejected s (int (length (append_level config_tree next_level)) - 1)))
             else main_loop M (append_level config_tree next_level) s)
      else (steps_count, Inr NoPath))"
  by pat_completeness auto
termination
proof (relation "measure (\<lambda>(M, config_tree, steps_count).
                   nat (depth_limit M + 1 - int (length config_tree)))")
  show "wf (measure (\<lambda>(M, config_tree, steps_count).
                   nat (depth_limit M + 1 - int (length config_tree))))"
    by simp
next
  fix M :: machine and config_tree :: "config list list" and steps_count s :: int
    and next_level :: "config list"
  assume "\<not> depth_limit M < int (length (append_level config_tree next_level))"
    and "\<not> \<not> any_alive M next_level"
  then show "((M, append_level config_tree next_level, s), (M, config_tree, steps_count))
      \<in> measure (\<lambda>(M, config_tree, steps_count).
                   nat (depth_limit M + 1 - int (length config_tree)))"
    by (auto simp: append_level_def any_alive_def)
qed

text \<open>
  Lines 38-45: \<open>execute\<close> stores the two limits in the object, builds the initial
  configuration and the tree, and runs the loop. The result is the object as the call
  leaves it, the last value of \<open>steps_count\<close>, and what the call printed or raised.
\<close>

definition initial_tree :: "machine \<Rightarrow> string \<Rightarrow> config list list" where
  "initial_tree M input_data = [[('''', start M, input_data)]]"

definition execute :: "machine \<Rightarrow> string \<Rightarrow> int \<Rightarrow> int \<Rightarrow> machine \<times> int \<times> (error + outcome)" where
  "execute M input_data max_depth max_steps =
     (let M' = M\<lparr>depth_limit := max_depth, transition_limit := max_steps\<rparr>
      in (M', main_loop M' (initial_tree M' input_data) 0))"

definition result :: "machine \<times> int \<times> (error + outcome) \<Rightarrow> error + outcome" where
  "result r = snd (snd r)"

definition final_steps :: "machine \<times> int \<times> (error + outcome) \<Rightarrow> int" where
  "final_steps r = fst (snd r)"

section \<open>Notions used to state the properties\<close>

text \<open>The value of \<open>steps_count\<close> a \<open>flow\<close> carries.\<close>

fun flow_steps :: "flow \<Rightarrow> int" where
  "flow_steps (Return s r) = s"
| "flow_steps (Continue s nl) = s"

text \<open>
  A configuration is examined for expansion when the loop body gets past the accept
  check of line 55 and the reject check of line 62.
\<close>

definition examined :: "machine \<Rightarrow> config \<Rightarrow> bool" where
  "examined M cfg = (fst (snd cfg) \<noteq> accept M \<and> fst (snd cfg) \<noteq> reject M)"

text \<open>The tree depth an outcome reports, when it reports one.\<close>

fun reported_depth :: "outcome \<Rightarrow> int option" where
  "reported_depth (Accepted s d rep) = Some d"
| "reported_depth (Rejected s d) = Some d"
| "reported_depth (DepthLimitExceeded s d) = Some d"
| "reported_depth (TransitionLimitExceeded l) = None"
| "reported_depth NoPath = None"

text \<open>
  The states in which a run reaches the head of the \<open>while\<close> loop (line 50): the initial
  tree with the counter 0, and the tree and counter every iteration that ends without a
  \<open>return\<close> leaves behind.
\<close>

inductive loop_head :: "machine \<Rightarrow> string \<Rightarrow> config list list \<Rightarrow> int \<Rightarrow> bool"
  for M :: machine and input_data :: string where
  first: "loop_head M input_data (initial_tree M input_data) 0"
| again: "loop_head M input_data config_tree steps_count \<Longrightarrow>
          config_tree \<noteq> [] \<Longrightarrow> steps_count < transition_limit M \<Longrightarrow>
          for_level M config_tree (last config_tree) [] steps_count = Continue s next_level \<Longrightarrow>
          \<not> int (length (append_level config_tree next_level)) > depth_limit M \<Longrightarrow>
          any_alive M next_level \<Longrightarrow>
          loop_head M input_data (append_level config_tree next_level) s"

section \<open>Machines for the scenarios\<close>

text \<open>A machine with the single ordinary state \<open>q0\<close> and no rule at all.\<close>

definition stuck_machine :: machine where
  "stuck_machine =
     \<lparr>rules = Map.empty, all_states = {''q0'', ''qacc'', ''qrej''}, input_symbols = {''a''},
      tape_symbols = {''a'', ''_''}, start = ''q0'', accept = ''qacc'', reject = ''qrej'',
      depth_limit = 100, transition_limit = 1000, name = ''stuck''\<rparr>"

text \<open>A machine whose start state is its accept state.\<close>

definition trivial_machine :: machine where
  "trivial_machine =
     \<lparr>rules = Map.empty, all_states = {''q0'', ''qrej''}, input_symbols = {''a''},
      tape_symbols = {''a'', ''_''}, start = ''q0'', accept = ''q0'', reject = ''qrej'',
      depth_limit = 100, transition_limit = 1000, name = ''trivial''\<rparr>"

text \<open>A machine with the single ordinary state \<open>q0\<close> and the rules \<open>ts\<close> for \<open>(q0, a)\<close>.\<close>

definition fork_machine :: "transition list \<Rightarrow> machine" where
  "fork_machine ts =
     \<lparr>rules = [(''q0'', ''a'') \<mapsto> ts], all_states = {''q0'', ''qacc'', ''qrej''},
      input_symbols = {''a''}, tape_symbols = {''a'', ''_''}, start = ''q0'',
      accept = ''qacc'', reject = ''qrej'', depth_limit = 100, transition_limit = 1000,
      name = ''fork''\<rparr>"

section \<open>Facts about the parts of execute\<close>

declare main_loop.simps [simp del]

subsection \<open>The acceptance report\<close>

text \<open>
  Called on a non-empty tree with \<open>depth = len(tree) - 1\<close>, as \<open>execute\<close> does, the
  report never reads past the tree; it divides by zero exactly when the tree has one level.
\<close>

lemma census_in_range:
  "\<forall>l\<in>set ls. 0 \<le> l \<and> l < int (length tree) \<Longrightarrow> \<exists>xs. census tree ls = Inr xs"
  by (induction ls) auto

lemma print_accept_path_depth0:
  "length tree = 1 \<Longrightarrow> print_accept_path tree (int (length tree) - 1) = Inl ZeroDivisionError"
  by (cases tree) (simp_all add: print_accept_path_def)

lemma print_accept_path_deeper:
  assumes "1 < length tree"
  shows "\<exists>rep. print_accept_path tree (int (length tree) - 1) = Inr rep"
proof -
  have "\<forall>l\<in>set [0..int (length tree) - 1]. 0 \<le> l \<and> l < int (length tree)"
    by simp
  then obtain xs where "census tree [0..int (length tree) - 1] = Inr xs"
    using census_in_range by blast
  with assms show ?thesis
    by (simp add: print_accept_path_def Let_def)
qed

subsection \<open>One transition\<close>

text \<open>
  A rule whose write string is empty and whose direction is neither \<open>"L"\<close> nor \<open>"R"\<close>
  can leave the right tape empty.
\<close>

lemma apply_transition_state: "fst (snd (apply_transition l r (n, w, d))) = n"
  by (simp add: apply_transition_def Let_def split: prod.splits)

lemma stay_with_empty_write: "apply_transition ''ab'' ''c'' (''q1'', '''', ''S'') = (''ab'', ''q1'', '''')"
  by (simp add: apply_transition_def)

subsection \<open>The loop body and the loop over a level\<close>

lemma for_body_steps:
  "flow_steps (for_body M tree cfg nl s) = (if examined M cfg then s + 1 else s)"
  by (cases cfg) (simp add: for_body_def examined_def Let_def)

lemma for_body_Return:
  assumes "for_body M tree cfg nl s = Return s' r" and "tree \<noteq> []"
  shows "(fst (snd cfg) = accept M \<and> s' = s \<and>
          (length tree = 1 \<and> r = Inl ZeroDivisionError \<or>
           1 < length tree \<and> (\<exists>rep. r = Inr (Accepted s (int (length tree) - 1) rep))))
       \<or> (examined M cfg \<and> s' = s + 1 \<and> transition_limit M < s' \<and>
          r = Inr (TransitionLimitExceeded (transition_limit M)))"
proof (cases "fst (snd cfg) = accept M")
  case True
  from \<open>tree \<noteq> []\<close> have "length tree = 1 \<or> 1 < length tree"
    by (cases tree) auto
  then show ?thesis
  proof
    assume "length tree = 1"
    with True assms(1) print_accept_path_depth0 [of tree] show ?thesis
      by (cases cfg) (auto simp: for_body_def)
  next
    assume "1 < length tree"
    with True assms(1) print_accept_path_deeper [of tree] show ?thesis
      by (cases cfg) (auto simp: for_body_def)
  qed
next
  case False
  with assms(1) show ?thesis
    by (cases cfg) (auto simp: for_body_def examined_def Let_def split: if_splits)
qed

lemma for_body_Continue:
  assumes "for_body M tree cfg nl s = Continue s' nl'"
  shows "fst (snd cfg) \<noteq> accept M \<and>
         (if fst (snd cfg) = reject M then s' = s \<and> nl' = nl
          else s' = s + 1 \<and> s' \<le> transition_limit M \<and> (\<exists>new. new \<noteq> [] \<and> nl' = nl @ new))"
  using assms by (cases cfg) (auto simp: for_body_def Let_def split: if_splits)

lemma for_body_examined:
  assumes "examined M cfg" and "s + 1 \<le> transition_limit M"
  shows "\<exists>new. new \<noteq> [] \<and> for_body M tree cfg nl s = Continue (s + 1) (nl @ new)"
  using assms by (cases cfg) (auto simp: for_body_def examined_def Let_def)

lemma for_body_accept:
  assumes "fst (snd cfg) = accept M" and "1 < length tree"
  shows "\<exists>rep. for_body M tree cfg nl s = Return s (Inr (Accepted s (int (length tree) - 1) rep))"
  using assms print_accept_path_deeper [of tree] by (cases cfg) (auto simp: for_body_def)

lemma for_body_accept0:
  assumes "fst (snd cfg) = accept M" and "length tree = 1"
  shows "for_body M tree cfg nl s = Return s (Inl ZeroDivisionError)"
  using assms print_accept_path_depth0 [of tree] by (cases cfg) (auto simp: for_body_def)

lemma for_body_reject:
  assumes "fst (snd cfg) \<noteq> accept M" and "fst (snd cfg) = reject M"
  shows "for_body M tree cfg nl s = Continue s nl"
  using assms by (cases cfg) (auto simp: for_body_def)

lemma for_level_append:
  "for_level M tree (xs @ ys) nl s =
     (case for_level M tree xs nl s of
        Return s' r \<Rightarrow> Return s' r
      | Continue s' nl' \<Rightarrow> for_level M tree ys nl' s')"
  by (induction xs arbitrary: nl s) (auto split: flow.splits)

lemma for_level_mono: "s \<le> flow_steps (for_level M tree cfgs nl s)"
proof (induction cfgs arbitrary: nl s)
  case Nil
  show ?case by simp
next
  case (Cons cfg rest)
  show ?case
  proof (cases "for_body M tree cfg nl s")
    case (Return s' r)
    with for_body_steps [of M tree cfg nl s] show ?thesis by (simp split: if_splits)
  next
    case (Continue s' nl')
    with for_body_steps [of M tree cfg nl s] have "s \<le> s'" by (simp split: if_splits)
    moreover have "s' \<le> flow_steps (for_level M tree rest nl' s')" by (rule Cons.IH)
    ultimately show ?thesis using Continue by simp
  qed
qed

lemma for_level_prefix_mono:
  "flow_steps (for_level M tree xs nl s) \<le> flow_steps (for_level M tree (xs @ ys) nl s)"
proof (cases "for_level M tree xs nl s")
  case (Return s' r)
  then show ?thesis by (simp add: for_level_append)
next
  case (Continue s' nl')
  with for_level_mono [of s' M tree ys nl'] show ?thesis
    by (simp add: for_level_append)
qed

lemma for_level_Continue:
  assumes "for_level M tree cfgs nl s = Continue s' nl'" and "s \<le> transition_limit M"
  shows "s \<le> s' \<and> s' \<le> transition_limit M"
  using assms
proof (induction cfgs arbitrary: nl s)
  case Nil
  then show ?case by simp
next
  case (Cons cfg rest)
  from Cons.prems(1) obtain s1 nl1 where b: "for_body M tree cfg nl s = Continue s1 nl1"
    and l: "for_level M tree rest nl1 s1 = Continue s' nl'"
    by (auto split: flow.splits)
  from for_body_Continue [OF b] Cons.prems(2) have "s \<le> s1 \<and> s1 \<le> transition_limit M"
    by (auto split: if_splits)
  with Cons.IH [OF l] show ?case by simp
qed

lemma for_level_Return:
  assumes "for_level M tree cfgs nl s = Return s' r" and "tree \<noteq> []"
    and "s \<le> transition_limit M"
  shows "(s \<le> s' \<and> s' \<le> transition_limit M \<and>
          (\<exists>cfg\<in>set cfgs. fst (snd cfg) = accept M) \<and>
          (length tree = 1 \<and> r = Inl ZeroDivisionError \<or>
           1 < length tree \<and> (\<exists>rep. r = Inr (Accepted s' (int (length tree) - 1) rep))))
       \<or> (s' = transition_limit M + 1 \<and>
          r = Inr (TransitionLimitExceeded (transition_limit M)))"
  using assms
proof (induction cfgs arbitrary: nl s)
  case Nil
  then show ?case by simp
next
  case (Cons cfg rest)
  show ?case
  proof (cases "for_body M tree cfg nl s")
    case (Return s1 r1)
    with Cons.prems(1) have "s1 = s'" "r1 = r" by simp_all
    with for_body_Return [OF Return \<open>tree \<noteq> []\<close>] Cons.prems(3) show ?thesis
      by auto
  next
    case (Continue s1 nl1)
    with Cons.prems(1) have l: "for_level M tree rest nl1 s1 = Return s' r" by simp
    from for_body_Continue [OF Continue] Cons.prems(3)
    have "s \<le> s1 \<and> s1 \<le> transition_limit M"
      by (auto split: if_splits)
    with Cons.IH [OF l \<open>tree \<noteq> []\<close>] show ?thesis by auto
  qed
qed

lemma for_level_bounds:
  assumes "tree \<noteq> []" and "s \<le> transition_limit M"
  shows "s \<le> flow_steps (for_level M tree cfgs nl s) \<and>
         flow_steps (for_level M tree cfgs nl s) \<le> transition_limit M + 1 \<and>
         (transition_limit M < flow_steps (for_level M tree cfgs nl s) \<longrightarrow>
            for_level M tree cfgs nl s
              = Return (transition_limit M + 1)
                  (Inr (TransitionLimitExceeded (transition_limit M))))"
proof (cases "for_level M tree cfgs nl s")
  case (Return s' r)
  from for_level_Return [OF Return assms] Return assms(2) show ?thesis by auto
next
  case (Continue s' nl')
  from for_level_Continue [OF Continue assms(2)] Continue show ?thesis by auto
qed

subsection \<open>The while loop\<close>

text \<open>
  Every tree at the head of the loop is non-empty and, past the first one, holds at most
  \<open>depth_limit\<close> levels; the loop started at any of these states ends as the run does.
\<close>

lemma any_alive_nonempty: "any_alive M nl \<Longrightarrow> nl \<noteq> []"
  by (auto simp: any_alive_def)

lemma loop_head_inv:
  assumes "loop_head M inp tree steps"
  shows "tree \<noteq> [] \<and> 0 \<le> steps \<and> (steps = 0 \<or> steps \<le> transition_limit M) \<and>
         (length tree = 1 \<or> int (length tree) \<le> depth_limit M)"
  using assms
proof (induction rule: loop_head.induct)
  case first
  show ?case by (simp add: initial_tree_def)
next
  case (again config_tree steps_count s next_level)
  from again.hyps(3) again.hyps(4) for_level_Continue [of M config_tree "last config_tree" "[]" steps_count s next_level]
  have "steps_count \<le> s \<and> s \<le> transition_limit M" by simp
  with again show ?case
    by (auto simp: append_level_def dest: any_alive_nonempty)
qed

lemma main_loop_loop_head:
  assumes "loop_head M inp tree steps"
  shows "main_loop M tree steps = main_loop M (initial_tree M inp) 0"
  using assms
proof (induction rule: loop_head.induct)
  case first
  show ?case by simp
next
  case (again config_tree steps_count s next_level)
  have "main_loop M config_tree steps_count = main_loop M (append_level config_tree next_level) s"
    using again.hyps(2-6) by (subst main_loop.simps) simp
  with again.IH show ?case by simp
qed

lemma main_loop_error:
  assumes "main_loop M tree steps = (sf, Inl e)"
  shows "e = ZeroDivisionError \<and> length tree = 1 \<and> steps < transition_limit M \<and>
         (\<exists>cfg\<in>set (last tree). fst (snd cfg) = accept M)"
  using assms
proof (induction M tree steps rule: main_loop.induct)
  case (1 M tree steps)
  show ?case
  proof (cases "tree \<noteq> [] \<and> steps < transition_limit M")
    case False
    with "1.prems" show ?thesis by (simp add: main_loop.simps)
  next
    case True
    show ?thesis
    proof (cases "for_level M tree (last tree) [] steps")
      case (Return s r)
      with True "1.prems" have r: "s = sf" "r = Inl e" by (simp_all add: main_loop.simps)
      from True have "steps \<le> transition_limit M" by simp
      from for_level_Return [OF Return _ this] True r
      have "length tree = 1" "e = ZeroDivisionError"
        "\<exists>cfg\<in>set (last tree). fst (snd cfg) = accept M" by auto
      then show ?thesis using True by simp
    next
      case (Continue s nl)
      show ?thesis
      proof (cases "depth_limit M < int (length (append_level tree nl))")
        case dl: True
        with True Continue "1.prems" show ?thesis by (simp add: main_loop.simps)
      next
        case dl: False
        show ?thesis
        proof (cases "any_alive M nl")
          case False
          with dl True Continue "1.prems" show ?thesis by (simp add: main_loop.simps)
        next
          case alive: True
          with dl True Continue "1.prems"
          have "main_loop M (append_level tree nl) s = (sf, Inl e)"
            by (simp add: main_loop.simps)
          from "1.IH" [OF True Continue dl _ this] alive
          have "length (append_level tree nl) = 1" by simp
          with alive True show ?thesis
            by (auto simp: append_level_def dest: any_alive_nonempty)
        qed
      qed
    qed
  qed
qed

lemma main_loop_initial_accept:
  assumes "start M = accept M" and "0 < transition_limit M"
  shows "main_loop M (initial_tree M inp) 0 = (0, Inl ZeroDivisionError)"
  using assms for_body_accept0 [of "('''', start M, inp)" M "initial_tree M inp" "[]" 0]
  by (subst main_loop.simps) (simp add: initial_tree_def)

lemma execute_raises_iff:
  "result (execute M inp md ms) = Inl e \<longleftrightarrow>
     e = ZeroDivisionError \<and> start M = accept M \<and> 0 < ms"
proof
  assume "result (execute M inp md ms) = Inl e"
  then obtain sf where "main_loop (M\<lparr>depth_limit := md, transition_limit := ms\<rparr>)
      (initial_tree (M\<lparr>depth_limit := md, transition_limit := ms\<rparr>) inp) 0 = (sf, Inl e)"
    by (cases "main_loop (M\<lparr>depth_limit := md, transition_limit := ms\<rparr>)
      (initial_tree (M\<lparr>depth_limit := md, transition_limit := ms\<rparr>) inp) 0")
       (simp add: result_def execute_def Let_def)
  from main_loop_error [OF this]
  show "e = ZeroDivisionError \<and> start M = accept M \<and> 0 < ms"
    by (simp add: initial_tree_def)
next
  assume "e = ZeroDivisionError \<and> start M = accept M \<and> 0 < ms"
  with main_loop_initial_accept [of "M\<lparr>depth_limit := md, transition_limit := ms\<rparr>" inp]
  show "result (execute M inp md ms) = Inl e"
    by (simp add: result_def execute_def Let_def)
qed

lemma main_loop_depth:
  assumes "main_loop M tree steps = (sf, Inr out)" and "reported_depth out = Some d"
    and "tree \<noteq> []" and "length tree = 1 \<or> int (length tree) \<le> depth_limit M"
  shows "d \<le> depth_limit M"
  using assms
proof (induction M tree steps rule: main_loop.induct)
  case (1 M tree steps)
  show ?case
  proof (cases "tree \<noteq> [] \<and> steps < transition_limit M")
    case False
    with "1.prems" show ?thesis by (auto simp: main_loop.simps)
  next
    case True
    show ?thesis
    proof (cases "for_level M tree (last tree) [] steps")
      case (Return s r)
      with True "1.prems"(1) have r: "r = Inr out" by (simp add: main_loop.simps)
      from True have "steps \<le> transition_limit M" by simp
      from for_level_Return [OF Return _ this] True r "1.prems"(2,4)
      show ?thesis by auto
    next
      case (Continue s nl)
      show ?thesis
      proof (cases "depth_limit M < int (length (append_level tree nl))")
        case dl: True
        with True Continue "1.prems" show ?thesis by (auto simp: main_loop.simps)
      next
        case dl: False
        show ?thesis
        proof (cases "any_alive M nl")
          case False
          with dl True Continue "1.prems" show ?thesis by (auto simp: main_loop.simps)
        next
          case alive: True
          with dl True Continue "1.prems"
          have m: "main_loop M (append_level tree nl) s = (sf, Inr out)"
            by (simp add: main_loop.simps)
          have ne: "append_level tree nl \<noteq> []"
            using True by (simp add: append_level_def)
          from dl have "length (append_level tree nl) = 1 \<or>
              int (length (append_level tree nl)) \<le> depth_limit M" by simp
          from "1.IH" [OF True Continue dl _ m "1.prems"(2) ne this] alive
          show ?thesis by simp
        qed
      qed
    qed
  qed
qed

lemma main_loop_final_steps:
  assumes "main_loop M tree steps = (sf, r)" and "steps \<le> transition_limit M"
    and "tree \<noteq> []"
  shows "steps \<le> sf \<and> sf \<le> transition_limit M + 1 \<and>
         (sf = transition_limit M + 1 \<longleftrightarrow> r = Inr (TransitionLimitExceeded (transition_limit M)))"
  using assms
proof (induction M tree steps rule: main_loop.induct)
  case (1 M tree steps)
  show ?case
  proof (cases "tree \<noteq> [] \<and> steps < transition_limit M")
    case False
    with "1.prems" show ?thesis by (auto simp: main_loop.simps)
  next
    case True
    show ?thesis
    proof (cases "for_level M tree (last tree) [] steps")
      case (Return s r')
      with True "1.prems"(1) have r: "r' = r" "s = sf" by (simp_all add: main_loop.simps)
      from for_level_Return [OF Return "1.prems"(3,2)] r "1.prems"(2)
      show ?thesis by auto
    next
      case (Continue s nl)
      from for_level_Continue [OF Continue "1.prems"(2)]
      have s: "steps \<le> s" "s \<le> transition_limit M" by simp_all
      show ?thesis
      proof (cases "depth_limit M < int (length (append_level tree nl))")
        case dl: True
        with True Continue "1.prems" s show ?thesis by (auto simp: main_loop.simps)
      next
        case dl: False
        show ?thesis
        proof (cases "any_alive M nl")
          case False
          with dl True Continue "1.prems" s show ?thesis by (auto simp: main_loop.simps)
        next
          case alive: True
          with dl True Continue "1.prems"
          have m: "main_loop M (append_level tree nl) s = (sf, r)"
            by (simp add: main_loop.simps)
          have ne: "append_level tree nl \<noteq> []"
            using True by (simp add: append_level_def)
          from "1.IH" [OF True Continue dl _ m s(2) ne] alive s
          show ?thesis by simp
        qed
      qed
    qed
  qed
qed

lemma main_loop_depth_limit:
  assumes "main_loop M tree steps = (sf, Inr (DepthLimitExceeded s d))"
    and "loop_head M inp tree steps"
  shows "d = depth_limit M \<and>
         (\<exists>tree' steps' nl. loop_head M inp tree' steps' \<and> steps' < transition_limit M \<and>
            for_level M tree' (last tree') [] steps' = Continue s nl \<and>
            depth_limit M < int (length (append_level tree' nl)))"
  using assms
proof (induction M tree steps rule: main_loop.induct)
  case (1 M tree steps)
  show ?case
  proof (cases "tree \<noteq> [] \<and> steps < transition_limit M")
    case False
    with "1.prems" show ?thesis by (auto simp: main_loop.simps)
  next
    case True
    show ?thesis
    proof (cases "for_level M tree (last tree) [] steps")
      case (Return s' r)
      with True "1.prems"(1) have r: "r = Inr (DepthLimitExceeded s d)"
        by (simp add: main_loop.simps)
      from True have "steps \<le> transition_limit M" by simp
      from for_level_Return [OF Return _ this] True r
      show ?thesis by auto
    next
      case (Continue s' nl)
      show ?thesis
      proof (cases "depth_limit M < int (length (append_level tree nl))")
        case dl: True
        with True Continue "1.prems"(1) have "s' = s" "d = depth_limit M"
          by (simp_all add: main_loop.simps)
        with True Continue dl "1.prems"(2) show ?thesis by blast
      next
        case dl: False
        show ?thesis
        proof (cases "any_alive M nl")
          case False
          with dl True Continue "1.prems" show ?thesis by (auto simp: main_loop.simps)
        next
          case alive: True
          with dl True Continue "1.prems"
          have m: "main_loop M (append_level tree nl) s' = (sf, Inr (DepthLimitExceeded s d))"
            by (simp add: main_loop.simps)
          from True Continue dl alive "1.prems"(2)
          have "loop_head M inp (append_level tree nl) s'"
            by (intro loop_head.again) simp_all
          from "1.IH" [OF True Continue dl _ m this] alive
          show ?thesis by simp
        qed
      qed
    qed
  qed
qed

section \<open>The claims\<close>

subsection \<open>C1: totality and acceptance at depth 0\<close>

text \<open>
  C1 says that a run always ends in one of the outcomes without raising, and that an
  acceptance found at depth 0 reports the average as undefined instead of dividing by zero.
  \<open>main_loop\<close> is total, and by \<open>execute_raises_iff\<close> a run raises in one case only: the
  start state is the accept state and the transition limit is positive. There the call
  does raise: on the machine whose start state is its accept state, with the empty input
  and the limits 100 and 1000, \<open>print_accept_path\<close> divides by the depth 0 and \<open>execute\<close>
  ends in \<open>ZeroDivisionError\<close>.
\<close>

theorem accept_at_depth0_raises:
  "result (execute trivial_machine '''' 100 1000) = Inl ZeroDivisionError"
  by (simp add: result_def execute_def trivial_machine_def initial_tree_def main_loop.simps
      for_body_def print_accept_path_def)

subsection \<open>C2: the depth limit\<close>

text \<open>
  C2, as amended: a run halts with DepthLimitExceeded exactly when, at the depth check that
  follows the loop over some level (line 111, after the successors of that level, if any,
  were appended), the tree holds more than \<open>max_depth\<close> levels; the outcome then reports
  \<open>max_depth\<close> as depth and the counter reached. While the tree holds \<open>max_depth\<close> or fewer
  levels at that check, no such halt occurs.
\<close>

theorem depth_limit_halt_iff:
  "result (execute M input_data max_depth max_steps) = Inr (DepthLimitExceeded s d) \<longleftrightarrow>
     d = max_depth \<and>
     (\<exists>config_tree steps_count next_level.
        loop_head (M\<lparr>depth_limit := max_depth, transition_limit := max_steps\<rparr>)
          input_data config_tree steps_count \<and>
        steps_count < max_steps \<and>
        for_level (M\<lparr>depth_limit := max_depth, transition_limit := max_steps\<rparr>)
          config_tree (last config_tree) [] steps_count = Continue s next_level \<and>
        max_depth < int (length (append_level config_tree next_level)))"
proof
  let ?M = "M\<lparr>depth_limit := max_depth, transition_limit := max_steps\<rparr>"
  assume "result (execute M input_data max_depth max_steps) = Inr (DepthLimitExceeded s d)"
  then obtain sf where
    "main_loop ?M (initial_tree ?M input_data) 0 = (sf, Inr (DepthLimitExceeded s d))"
    by (cases "main_loop ?M (initial_tree ?M input_data) 0")
       (simp add: result_def execute_def Let_def)
  from main_loop_depth_limit [OF this loop_head.first]
  show "d = max_depth \<and>
     (\<exists>config_tree steps_count next_level.
        loop_head ?M input_data config_tree steps_count \<and>
        steps_count < max_steps \<and>
        for_level ?M config_tree (last config_tree) [] steps_count = Continue s next_level \<and>
        max_depth < int (length (append_level config_tree next_level)))"
    by simp
next
  let ?M = "M\<lparr>depth_limit := max_depth, transition_limit := max_steps\<rparr>"
  assume "d = max_depth \<and>
     (\<exists>config_tree steps_count next_level.
        loop_head ?M input_data config_tree steps_count \<and>
        steps_count < max_steps \<and>
        for_level ?M config_tree (last config_tree) [] steps_count = Continue s next_level \<and>
        max_depth < int (length (append_level config_tree next_level)))"
  then obtain tree steps nl where d: "d = max_depth"
    and h: "loop_head ?M input_data tree steps" and lt: "steps < max_steps"
    and l: "for_level ?M tree (last tree) [] steps = Continue s nl"
    and len: "max_depth < int (length (append_level tree nl))"
    by blast
  from loop_head_inv [OF h] have "tree \<noteq> []" by simp
  with lt l len have m: "main_loop ?M tree steps = (s, Inr (DepthLimitExceeded s max_depth))"
    by (subst main_loop.simps) simp
  have e: "main_loop ?M (initial_tree ?M input_data) 0 = main_loop ?M tree steps"
    by (rule main_loop_loop_head [OF h, symmetric])
  from d show "result (execute M input_data max_depth max_steps) = Inr (DepthLimitExceeded s d)"
    by (simp add: result_def execute_def Let_def e m)
qed

text \<open>
  C2, an instance: with \<open>max_depth = 1\<close> the run of the machine with the one rule
  \<open>(q0, a) -> (q0, a, R)\<close> on \<open>"a"\<close> halts at the first depth check.
\<close>

theorem depth_limit_halt_iff_witness:
  "result (execute (fork_machine [(''q0'', ''a'', ''R'')]) ''a'' 1 1000)
     = Inr (DepthLimitExceeded 1 1) \<and>
   (\<exists>config_tree steps_count next_level.
        loop_head (fork_machine [(''q0'', ''a'', ''R'')]\<lparr>depth_limit := 1, transition_limit := 1000\<rparr>)
          ''a'' config_tree steps_count \<and>
        steps_count < 1000 \<and>
        for_level (fork_machine [(''q0'', ''a'', ''R'')]\<lparr>depth_limit := 1, transition_limit := 1000\<rparr>)
          config_tree (last config_tree) [] steps_count = Continue 1 next_level \<and>
        1 < int (length (append_level config_tree next_level)))"
proof -
  have "result (execute (fork_machine [(''q0'', ''a'', ''R'')]) ''a'' 1 1000)
     = Inr (DepthLimitExceeded 1 1)"
    by (simp add: result_def execute_def fork_machine_def initial_tree_def main_loop.simps
      for_body_def append_level_def any_alive_def apply_transition_def)
  with depth_limit_halt_iff [of "fork_machine [(''q0'', ''a'', ''R'')]" "''a''" 1 1000 1 1]
  show ?thesis by simp
qed

text \<open>
  C2 as stated fails: in that run the halt occurs when the tree holds two levels, which is
  \<open>max_depth + 1\<close> and not more.
\<close>

theorem depth_limit_counterexample:
  "result (execute (fork_machine [(''q0'', ''a'', ''R'')]) ''a'' 1 1000)
     = Inr (DepthLimitExceeded 1 1) \<and>
   for_level (fork_machine [(''q0'', ''a'', ''R'')]\<lparr>depth_limit := 1, transition_limit := 1000\<rparr>)
     [[('''', ''q0'', ''a'')]] [('''', ''q0'', ''a'')] [] 0 = Continue 1 [(''a'', ''q0'', ''_'')] \<and>
   length (append_level [[('''', ''q0'', ''a'')]] [(''a'', ''q0'', ''_'')]) = 2 \<and>
   \<not> (1::int) + 1 < 2"
  by (simp add: result_def execute_def fork_machine_def initial_tree_def main_loop.simps
      for_body_def append_level_def any_alive_def apply_transition_def)

subsection \<open>C3: the reported depth\<close>

text \<open>
  C3: whatever the machine, the input and the limits, the depth an outcome reports is at most
  \<open>max_depth\<close>.
\<close>

theorem reported_depth_within_max_depth:
  assumes "result (execute M input_data max_depth max_steps) = Inr out"
    and "reported_depth out = Some d"
  shows "d \<le> max_depth"
proof -
  let ?M = "M\<lparr>depth_limit := max_depth, transition_limit := max_steps\<rparr>"
  from assms(1) obtain sf where "main_loop ?M (initial_tree ?M input_data) 0 = (sf, Inr out)"
    by (cases "main_loop ?M (initial_tree ?M input_data) 0")
       (simp add: result_def execute_def Let_def)
  from main_loop_depth [OF this assms(2)] show ?thesis
    by (simp add: initial_tree_def)
qed

text \<open>
  C3, an instance: the machine with the one rule \<open>(q0, a) -> (qacc, a, R)\<close> accepts
  \<open>"a"\<close> at depth 1 under \<open>max_depth = 2\<close>.
\<close>

theorem reported_depth_within_max_depth_witness:
  "result (execute (fork_machine [(''qacc'', ''a'', ''R'')]) ''a'' 2 10)
     = Inr (Accepted 1 1 \<lparr>level_lines = [(0, '''', ''q0'', ''a''), (1, ''a'', ''qacc'', ''_'')],
                          num_configs = 2, average = 2\<rparr>) \<and>
   (1::int) \<le> 2"
proof -
  have h: "result (execute (fork_machine [(''qacc'', ''a'', ''R'')]) ''a'' 2 10)
     = Inr (Accepted 1 1 \<lparr>level_lines = [(0, '''', ''q0'', ''a''), (1, ''a'', ''qacc'', ''_'')],
                          num_configs = 2, average = 2\<rparr>)"
    by (simp add: result_def execute_def fork_machine_def initial_tree_def main_loop.simps
      for_body_def append_level_def any_alive_def apply_transition_def print_accept_path_def
      upto.simps)
  from reported_depth_within_max_depth [OF h] h show ?thesis
    by simp
qed

subsection \<open>C4: the transition counter\<close>

text \<open>
  C4, as amended, for \<open>max_steps \<ge> 0\<close>. At every head of the while loop the counter lies
  between 0 and \<open>max_steps\<close>. Inside the loop over a level, after any number \<open>k\<close> of
  configurations, the counter is at least what it was at the head, does not decrease when
  more configurations are processed, and is at most \<open>max_steps + 1\<close>; it is above
  \<open>max_steps\<close> only when the loop has just returned with TransitionLimitExceeded, the counter
  being \<open>max_steps + 1\<close>. One pass through the loop body adds one to the counter when the
  configuration is examined for expansion and leaves it unchanged otherwise. The last value
  of the counter is at most \<open>max_steps + 1\<close>, and it is \<open>max_steps + 1\<close> exactly when the
  run ends with TransitionLimitExceeded.
\<close>

theorem steps_count_throughout:
  assumes "0 \<le> max_steps"
    and "loop_head (M\<lparr>depth_limit := max_depth, transition_limit := max_steps\<rparr>)
           input_data config_tree steps_count"
  shows "0 \<le> steps_count \<and> steps_count \<le> max_steps \<and>
     steps_count \<le> flow_steps (for_level (M\<lparr>depth_limit := max_depth, transition_limit := max_steps\<rparr>)
        config_tree (take k (last config_tree)) [] steps_count) \<and>
     flow_steps (for_level (M\<lparr>depth_limit := max_depth, transition_limit := max_steps\<rparr>)
        config_tree (take k (last config_tree)) [] steps_count)
       \<le> flow_steps (for_level (M\<lparr>depth_limit := max_depth, transition_limit := max_steps\<rparr>)
        config_tree (take (k + j) (last config_tree)) [] steps_count) \<and>
     flow_steps (for_level (M\<lparr>depth_limit := max_depth, transition_limit := max_steps\<rparr>)
        config_tree (take k (last config_tree)) [] steps_count) \<le> max_steps + 1 \<and>
     (max_steps < flow_steps (for_level (M\<lparr>depth_limit := max_depth, transition_limit := max_steps\<rparr>)
        config_tree (take k (last config_tree)) [] steps_count) \<longrightarrow>
      for_level (M\<lparr>depth_limit := max_depth, transition_limit := max_steps\<rparr>)
        config_tree (take k (last config_tree)) [] steps_count
        = Return (max_steps + 1) (Inr (TransitionLimitExceeded max_steps))) \<and>
     flow_steps (for_body (M\<lparr>depth_limit := max_depth, transition_limit := max_steps\<rparr>)
        config_tree cfg next_level s)
       = (if examined (M\<lparr>depth_limit := max_depth, transition_limit := max_steps\<rparr>) cfg
          then s + 1 else s) \<and>
     final_steps (execute M input_data max_depth max_steps) \<le> max_steps + 1 \<and>
     (final_steps (execute M input_data max_depth max_steps) = max_steps + 1 \<longleftrightarrow>
      result (execute M input_data max_depth max_steps)
        = Inr (TransitionLimitExceeded max_steps))"
proof -
  let ?M = "M\<lparr>depth_limit := max_depth, transition_limit := max_steps\<rparr>"
  from loop_head_inv [OF assms(2)] assms(1)
  have ne: "config_tree \<noteq> []" and lo: "0 \<le> steps_count"
    and hi: "steps_count \<le> transition_limit ?M"
    by auto
  note b = for_level_bounds [OF ne hi, of "take k (last config_tree)" "[]"]
  have "take (k + j) (last config_tree)
      = take k (last config_tree) @ take j (drop k (last config_tree))"
    by (simp add: take_add)
  then have m: "flow_steps (for_level ?M config_tree (take k (last config_tree)) [] steps_count)
      \<le> flow_steps (for_level ?M config_tree (take (k + j) (last config_tree)) [] steps_count)"
    using for_level_prefix_mono [of ?M config_tree "take k (last config_tree)" "[]" steps_count
        "take j (drop k (last config_tree))"]
    by simp
  obtain sf r where run: "main_loop ?M (initial_tree ?M input_data) 0 = (sf, r)"
    by (cases "main_loop ?M (initial_tree ?M input_data) 0")
  from main_loop_final_steps [OF run] assms(1)
  have f: "sf \<le> max_steps + 1 \<and>
      (sf = max_steps + 1 \<longleftrightarrow> r = Inr (TransitionLimitExceeded max_steps))"
    by (simp add: initial_tree_def)
  from run have e: "final_steps (execute M input_data max_depth max_steps) = sf"
    "result (execute M input_data max_depth max_steps) = r"
    by (simp_all add: final_steps_def result_def execute_def Let_def)
  from lo hi b m f show ?thesis
    unfolding e by (simp add: for_body_steps)
qed

text \<open>
  C4, an instance: the machine with the two rules \<open>(q0, a) -> (q0, a, R)\<close> and
  \<open>(q0, a) -> (q0, a, L)\<close> on \<open>"a"\<close> with \<open>max_steps = 2\<close>, at the first head of the loop.
\<close>

theorem steps_count_throughout_witness:
  "(0::int) \<le> 2 \<and>
   loop_head (fork_machine [(''q0'', ''a'', ''R''), (''q0'', ''a'', ''L'')]
                \<lparr>depth_limit := 10, transition_limit := 2\<rparr>) ''a''
     [[('''', ''q0'', ''a'')]] 0 \<and>
   final_steps (execute (fork_machine [(''q0'', ''a'', ''R''), (''q0'', ''a'', ''L'')]) ''a'' 10 2)
     \<le> 2 + 1 \<and>
   flow_steps (for_level (fork_machine [(''q0'', ''a'', ''R''), (''q0'', ''a'', ''L'')]
                \<lparr>depth_limit := 10, transition_limit := 2\<rparr>)
      [[('''', ''q0'', ''a'')]] (take 1 (last [[('''', ''q0'', ''a'')]])) [] 0) \<le> 2 + 1"
proof -
  let ?M = "fork_machine [(''q0'', ''a'', ''R''), (''q0'', ''a'', ''L'')]"
  have h1: "(0::int) \<le> 2" by simp
  have "loop_head (?M\<lparr>depth_limit := 10, transition_limit := 2\<rparr>) ''a''
     (initial_tree (?M\<lparr>depth_limit := 10, transition_limit := 2\<rparr>) ''a'') 0"
    by (rule loop_head.first)
  then have h2: "loop_head (?M\<lparr>depth_limit := 10, transition_limit := 2\<rparr>) ''a''
     [[('''', ''q0'', ''a'')]] 0"
    by (simp add: initial_tree_def fork_machine_def)
  from steps_count_throughout [OF h1 h2, of 1] h1 h2 show ?thesis
    by simp
qed

text \<open>
  C4 as stated fails: in that run the second configuration of level 1 takes the counter
  to 3, above \<open>max_steps = 2\<close>, and the run halts there.
\<close>

theorem steps_count_counterexample:
  "final_steps (execute (fork_machine [(''q0'', ''a'', ''R''), (''q0'', ''a'', ''L'')]) ''a'' 10 2) = 3
   \<and> \<not> (3::int) \<le> 2"
  by (simp add: final_steps_def execute_def fork_machine_def initial_tree_def main_loop.simps
      for_body_def append_level_def any_alive_def apply_transition_def)

subsection \<open>C5: negative limits\<close>

text \<open>
  C5, as amended: \<open>execute\<close> checks neither limit, and a negative one is compared like any
  other. With \<open>max_steps \<le> 0\<close> the loop is never entered and the run ends with NoPath.
  With a negative \<open>max_depth\<close>, a positive \<open>max_steps\<close> and a start state that is not the
  accept state, the first depth check halts the run with DepthLimitExceeded, reporting the
  negative \<open>max_depth\<close> and the counter 0 (start state is the reject state) or 1.
\<close>

theorem negative_limits_run:
  assumes "max_depth < 0 \<or> max_steps < 0"
  shows "(max_steps \<le> 0 \<longrightarrow> result (execute M input_data max_depth max_steps) = Inr NoPath) \<and>
         (0 < max_steps \<and> start M \<noteq> accept M \<longrightarrow>
            result (execute M input_data max_depth max_steps)
              = Inr (DepthLimitExceeded (if start M = reject M then 0 else 1) max_depth))"
proof -
  let ?M = "M\<lparr>depth_limit := max_depth, transition_limit := max_steps\<rparr>"
  let ?init = "('''', start M, input_data)"
  have "result (execute M input_data max_depth max_steps) = Inr NoPath" if "max_steps \<le> 0"
    using that by (simp add: result_def execute_def main_loop.simps)
  moreover have "result (execute M input_data max_depth max_steps)
      = Inr (DepthLimitExceeded (if start M = reject M then 0 else 1) max_depth)"
    if pos: "0 < max_steps" and na: "start M \<noteq> accept M"
  proof -
    from pos assms have neg: "max_depth < 0" by auto
    show ?thesis
    proof (cases "start M = reject M")
      case True
      with na have "for_body ?M [[?init]] ?init [] 0 = Continue 0 []"
        by (simp add: for_body_reject)
      then have "main_loop ?M (initial_tree ?M input_data) 0
          = (0, Inr (DepthLimitExceeded 0 max_depth))"
        using pos neg by (subst main_loop.simps) (simp add: initial_tree_def append_level_def)
      with True show ?thesis by (simp add: result_def execute_def Let_def)
    next
      case False
      with na have "examined ?M ?init" by (simp add: examined_def)
      from for_body_examined [OF this, of 0 "[[?init]]" "[]"] pos
      obtain new where "for_body ?M [[?init]] ?init [] 0 = Continue 1 new"
        by auto
      then have "main_loop ?M (initial_tree ?M input_data) 0
          = (1, Inr (DepthLimitExceeded 1 max_depth))"
        using pos neg by (subst main_loop.simps) (simp add: initial_tree_def append_level_def)
      with False show ?thesis by (simp add: result_def execute_def Let_def)
    qed
  qed
  ultimately show ?thesis by blast
qed

text \<open>
  C5, two instances on the machine without rules: \<open>max_depth = -1\<close>, and
  \<open>max_steps = -1\<close>.
\<close>

theorem negative_limits_run_witness:
  "result (execute stuck_machine ''a'' (- 1) 1000) = Inr (DepthLimitExceeded 1 (- 1)) \<and>
   result (execute stuck_machine ''a'' 100 (- 1)) = Inr NoPath"
  using negative_limits_run [of "- 1" 1000 stuck_machine "''a''"]
    negative_limits_run [of 100 "- 1" stuck_machine "''a''"]
  by (simp add: stuck_machine_def)

text \<open>
  C5 as stated fails: with \<open>max_steps = -1\<close>, and with \<open>max_depth = -1\<close>, the call on
  the empty input returns an outcome and signals nothing.
\<close>

theorem negative_limits_counterexample:
  "result (execute stuck_machine '''' 100 (- 1)) = Inr NoPath \<and>
   result (execute stuck_machine '''' (- 1) 1000) = Inr (DepthLimitExceeded 1 (- 1))"
  by (simp add: result_def execute_def stuck_machine_def initial_tree_def main_loop.simps
      for_body_def append_level_def)

subsection \<open>C6: the stuck machine\<close>

text \<open>
  C6: let the start state be neither the accept nor the reject state and let there be no
  rule for the start state and the blank. On the empty input, with \<open>max_depth \<ge> 2\<close> and
  \<open>max_steps \<ge> 1\<close>, the loop over level 0 yields the single configuration
  \<open>("", reject, "")\<close> as level 1, and the run ends with Rejected at depth 1, the counter
  being 1.
\<close>

theorem stuck_machine_rejected:
  assumes "start M \<noteq> accept M" and "start M \<noteq> reject M"
    and "rules M (start M, ''_'') = None \<or> rules M (start M, ''_'') = Some []"
    and "2 \<le> max_depth" and "1 \<le> max_steps"
  shows "for_level (M\<lparr>depth_limit := max_depth, transition_limit := max_steps\<rparr>)
           [[('''', start M, '''')]] [('''', start M, '''')] [] 0
           = Continue 1 [('''', reject M, '''')]
       \<and> result (execute M '''' max_depth max_steps) = Inr (Rejected 1 1)
       \<and> final_steps (execute M '''' max_depth max_steps) = 1"
proof -
  let ?M = "M\<lparr>depth_limit := max_depth, transition_limit := max_steps\<rparr>"
  have level: "for_level ?M [[('''', start M, '''')]] [('''', start M, '''')] [] 0
           = Continue 1 [('''', reject M, '''')]"
    using assms by (auto simp: for_body_def)
  have "main_loop ?M (initial_tree ?M '''') 0 = (1, Inr (Rejected 1 1))"
    using assms(4,5) level
    by (subst main_loop.simps) (simp add: initial_tree_def append_level_def any_alive_def)
  with level show ?thesis
    by (simp add: result_def final_steps_def execute_def Let_def)
qed

text \<open>
  C6, an instance: the machine without rules under the limits 100 and 1000.
\<close>

theorem stuck_machine_rejected_witness:
  "result (execute stuck_machine '''' 100 1000) = Inr (Rejected 1 1) \<and>
   final_steps (execute stuck_machine '''' 100 1000) = 1"
  using stuck_machine_rejected [of stuck_machine 100 1000]
  by (simp add: stuck_machine_def)

subsection \<open>C7: the branching race\<close>

text \<open>
  C7: let the start state be neither the accept nor the reject state, and let the rules
  for the start state and \<open>a\<close> be one rule into the accept state and one rule back into
  the start state, in either order. On the input \<open>"a"\<close>, with \<open>max_depth \<ge> 2\<close> and
  \<open>max_steps \<ge> 2\<close>, the run ends with Accepted at depth 1; the counter is 1 when the
  accepting rule comes first and 2 when the looping rule does.
\<close>

theorem branching_race_accepted:
  assumes "start M \<noteq> accept M" and "start M \<noteq> reject M"
    and "rules M (start M, ''a'') = Some [(accept M, w1, d1), (start M, w2, d2)] \<or>
         rules M (start M, ''a'') = Some [(start M, w2, d2), (accept M, w1, d1)]"
    and "2 \<le> max_depth" and "2 \<le> max_steps"
  shows "\<exists>s rep. result (execute M ''a'' max_depth max_steps) = Inr (Accepted s 1 rep) \<and>
           s = (if rules M (start M, ''a'') = Some [(accept M, w1, d1), (start M, w2, d2)]
                then 1 else 2)"
proof -
  let ?M = "M\<lparr>depth_limit := max_depth, transition_limit := max_steps\<rparr>"
  let ?init = "('''', start M, ''a'')"
  let ?ca = "apply_transition '''' ''a'' (accept M, w1, d1)"
  let ?cs = "apply_transition '''' ''a'' (start M, w2, d2)"
  have sa: "fst (snd ?ca) = accept ?M" and ss: "fst (snd ?cs) = start M"
    by (simp_all add: apply_transition_state)
  from ss assms(1,2) have ex: "examined ?M ?cs"
    by (simp add: examined_def)
  from assms(3) show ?thesis
  proof
    assume r: "rules M (start M, ''a'') = Some [(accept M, w1, d1), (start M, w2, d2)]"
    let ?tree = "[[?init], [?ca, ?cs]]"
    have l0: "for_level ?M [[?init]] [?init] [] 0 = Continue 1 [?ca, ?cs]"
      using assms(1,2,5) r by (simp add: for_body_def)
    from for_body_accept [of ?ca ?M ?tree "[]" 1] sa
    obtain rep where "for_body ?M ?tree ?ca [] 1 = Return 1 (Inr (Accepted 1 1 rep))"
      by auto
    then have l1: "for_level ?M ?tree [?ca, ?cs] [] 1 = Return 1 (Inr (Accepted 1 1 rep))"
      by simp
    have alive: "any_alive ?M [?ca, ?cs]"
      using ss assms(2) by (simp add: any_alive_def)
    have "main_loop ?M ?tree 1 = (1, Inr (Accepted 1 1 rep))"
      using assms(5) l1 by (subst main_loop.simps) simp
    then have "main_loop ?M (initial_tree ?M ''a'') 0 = (1, Inr (Accepted 1 1 rep))"
      using assms(4,5) l0 alive
      by (subst main_loop.simps) (simp add: initial_tree_def append_level_def)
    with r show ?thesis
      by (simp add: result_def execute_def Let_def)
  next
    assume r: "rules M (start M, ''a'') = Some [(start M, w2, d2), (accept M, w1, d1)]"
    let ?tree = "[[?init], [?cs, ?ca]]"
    have l0: "for_level ?M [[?init]] [?init] [] 0 = Continue 1 [?cs, ?ca]"
      using assms(1,2,5) r by (simp add: for_body_def)
    from for_body_examined [OF ex, of 1 ?tree "[]"] assms(5)
    obtain new where b1: "for_body ?M ?tree ?cs [] 1 = Continue 2 new"
      by auto
    from for_body_accept [of ?ca ?M ?tree new 2] sa
    obtain rep where "for_body ?M ?tree ?ca new 2 = Return 2 (Inr (Accepted 2 1 rep))"
      by auto
    with b1 have l1: "for_level ?M ?tree [?cs, ?ca] [] 1 = Return 2 (Inr (Accepted 2 1 rep))"
      by simp
    have alive: "any_alive ?M [?cs, ?ca]"
      using ss assms(2) by (simp add: any_alive_def)
    have "main_loop ?M ?tree 1 = (2, Inr (Accepted 2 1 rep))"
      using assms(5) l1 by (subst main_loop.simps) simp
    then have "main_loop ?M (initial_tree ?M ''a'') 0 = (2, Inr (Accepted 2 1 rep))"
      using assms(4,5) l0 alive
      by (subst main_loop.simps) (simp add: initial_tree_def append_level_def)
    with r assms(1) show ?thesis
      by (simp add: result_def execute_def Let_def)
  qed
qed

text \<open>
  C7, two instances: both orders of the rules \<open>(qacc, a, R)\<close> and \<open>(q0, a, R)\<close>, under
  the limits 100 and 1000.
\<close>

theorem branching_race_accepted_witness:
  "(\<exists>rep. result (execute (fork_machine [(''qacc'', ''a'', ''R''), (''q0'', ''a'', ''R'')])
       ''a'' 100 1000) = Inr (Accepted 1 1 rep)) \<and>
   (\<exists>rep. result (execute (fork_machine [(''q0'', ''a'', ''R''), (''qacc'', ''a'', ''R'')])
       ''a'' 100 1000) = Inr (Accepted 2 1 rep))"
  using branching_race_accepted [of "fork_machine [(''qacc'', ''a'', ''R''), (''q0'', ''a'', ''R'')]"
      "''a''" "''R''" "''a''" "''R''" 100 1000]
    branching_race_accepted [of "fork_machine [(''q0'', ''a'', ''R''), (''qacc'', ''a'', ''R'')]"
      "''a''" "''R''" "''a''" "''R''" 100 1000]
  by (simp add: fork_machine_def)

subsection \<open>C8: determinism\<close>

text \<open>
  C8: the only fields \<open>execute\<close> writes are the two limits, which it sets before reading
  them. So a second call on the object the first call left behind, with the same
  arguments, gives the same object, counter and outcome; and what the two fields held
  before a call has no effect on it.
\<close>

theorem execute_deterministic:
  "execute (fst (execute M input_data max_depth max_steps)) input_data max_depth max_steps
     = execute M input_data max_depth max_steps \<and>
   execute (M\<lparr>depth_limit := d, transition_limit := t\<rparr>) input_data max_depth max_steps
     = execute M input_data max_depth max_steps"
  by (simp add: execute_def Let_def)

subsection \<open>C9: the right tape after a transition\<close>

text \<open>
  C9: the configuration a transition rule produces has a non-empty right tape, for every
  rule whose write string is not empty or whose direction is \<open>"L"\<close> or \<open>"R"\<close>; the rules
  of a machine description, which write one symbol and move left or right, are of this
  kind.
\<close>

theorem transition_right_nonempty:
  assumes "write_symbol \<noteq> [] \<or> move_dir = ''L'' \<or> move_dir = ''R''"
  shows "snd (snd (apply_transition tape_left tape_right (next_state, write_symbol, move_dir))) \<noteq> []"
proof (cases tape_right)
  case Nil
  show ?thesis
  proof (cases tape_left rule: rev_cases)
    case Nil
    with \<open>tape_right = []\<close> assms show ?thesis
      by (auto simp: apply_transition_def Let_def)
  next
    case (snoc ys y)
    with \<open>tape_right = []\<close> assms show ?thesis
      by (auto simp: apply_transition_def Let_def)
  qed
next
  case (Cons a as)
  show ?thesis
  proof (cases tape_left rule: rev_cases)
    case Nil
    with Cons assms show ?thesis
      by (cases as) (auto simp: apply_transition_def Let_def)
  next
    case (snoc ys y)
    with Cons assms show ?thesis
      by (cases as) (auto simp: apply_transition_def Let_def)
  qed
qed

text \<open>
  C9, an instance: writing \<open>x\<close> on an empty right tape and moving right re-appends a
  blank.
\<close>

theorem transition_right_nonempty_witness:
  "apply_transition ''ab'' '''' (''q1'', ''x'', ''R'') = (''abx'', ''q1'', ''_'') \<and>
   snd (snd (apply_transition ''ab'' '''' (''q1'', ''x'', ''R''))) \<noteq> []"
  using transition_right_nonempty [of "''x''" "''R''" "''ab''" "''''" "''q1''"]
  by (simp add: apply_transition_def)

subsection \<open>C10: a transition limit of zero\<close>

text \<open>
  C10: with \<open>max_steps = 0\<close> the loop body never runs, so every machine, also one whose
  start state is its accept state, ends with NoPath on every input, the counter being 0.
\<close>

theorem zero_transition_limit_no_path:
  "result (execute M input_data max_depth 0) = Inr NoPath \<and>
   final_steps (execute M input_data max_depth 0) = 0"
  by (simp add: result_def final_steps_def execute_def main_loop.simps)

text \<open>
  C10, an instance: the machine whose start state is its accept state.
\<close>

theorem zero_transition_limit_no_path_witness:
  "result (execute trivial_machine ''a'' 100 0) = Inr NoPath"
  using zero_transition_limit_no_path [of trivial_machine "''a''" 100] by simp

end
